theory Spec2Isabelle
  imports Complex_Main "HOL-Library.Word"
begin

section \<open>Clustered shading (demo 27): shallow embedding\<close>

text \<open>
  GLSL \<open>uint\<close> and C++ \<open>uint32_t\<close> are 32-bit words: \<open>+\<close> and \<open>*\<close> wrap around.
  A finite \<open>float\<close> value is a real number. In the shaders the result of a \<open>float\<close>
  operation (its rounding, and what it yields where GLSL leaves the result undefined) is
  what the implementation delivers: these operations are parameters, and an infinity or a
  NaN is \<open>None\<close>. The C++ \<open>float\<close> arithmetic of the host's light generation is taken
  without rounding.
\<close>

type_synonym uint = "32 word"
type_synonym uvec2 = "uint \<times> uint"
type_synonym uvec3 = "uint \<times> uint \<times> uint"
type_synonym vec2 = "real \<times> real"
type_synonym vec3 = "real \<times> real \<times> real"
type_synonym vec4 = "real \<times> real \<times> real \<times> real"

subsection \<open>Active Cluster Compactor: \<open>find_unique_clusters.comp\<close>\<close>

text \<open>
  \<open>UniqueActiveClustersSSBO\<close>: the counter and the dense list. The list is a buffer of a
  size fixed by the host; a write beyond its end is dropped (\<open>xs[i := v]\<close> leaves \<open>xs\<close>
  unchanged there).
\<close>

record UniqueActiveClustersSSBO =
  unique_clusters_count :: uint
  unique_clusters :: "uint list"

text \<open>
  \<open>clusters_flags[cluster_id]\<close>: the activation mask is a list of booleans. The shader
  has no guard on \<open>cluster_id\<close>; a read beyond the end of the mask yields a value that
  GLSL leaves undefined: \<open>out_of_bounds cluster_id\<close>, a parameter.
\<close>

definition clusters_flag :: "(uint \<Rightarrow> bool) \<Rightarrow> bool list \<Rightarrow> uint \<Rightarrow> bool" where
  "clusters_flag out_of_bounds clusters_flags cluster_id =
     (if unat cluster_id < length clusters_flags then clusters_flags ! unat cluster_id
      else out_of_bounds cluster_id)"

text \<open>
  One invocation of \<open>main\<close>, for \<open>gl_GlobalInvocationID.x = cluster_id\<close>.
  \<open>atomicAdd\<close> returns the counter's value before the addition.
\<close>

definition find_unique_clusters_main ::
  "(uint \<Rightarrow> bool) \<Rightarrow> bool list \<Rightarrow> uint \<Rightarrow> UniqueActiveClustersSSBO \<Rightarrow> UniqueActiveClustersSSBO" where
  "find_unique_clusters_main out_of_bounds clusters_flags cluster_id s =
     (if clusters_flag out_of_bounds clusters_flags cluster_id
      then (let i = unique_clusters_count s in
            s\<lparr>unique_clusters_count := i + 1,
              unique_clusters := (unique_clusters s)[unat i := cluster_id]\<rparr>)
      else s)"

text \<open>
  \<open>layout (local_size_x = 1024)\<close>: a dispatch of \<open>num_groups_x\<close> work groups runs
  \<open>1024 * num_groups_x\<close> invocations, whose \<open>gl_GlobalInvocationID.x\<close> are the numbers
  below that product.
\<close>

definition local_size_x :: nat where
  "local_size_x = 1024"

definition gl_GlobalInvocationIDs :: "nat \<Rightarrow> uint list" where
  "gl_GlobalInvocationIDs num_groups_x = map of_nat [0..<local_size_x * num_groups_x]"

text \<open>
  The dispatch. Every invocation makes one atomic reservation and then writes the slot that
  it alone reserved, so the buffer after the dispatch is the one obtained by running the
  invocations one after the other in the order of their reservations. That order is
  arbitrary: \<open>schedule\<close> rearranges the invocations into it.
\<close>

definition find_unique_clusters_dispatch ::
  "(uint \<Rightarrow> bool) \<Rightarrow> bool list \<Rightarrow> nat \<Rightarrow> (uint list \<Rightarrow> uint list)
     \<Rightarrow> UniqueActiveClustersSSBO \<Rightarrow> UniqueActiveClustersSSBO" where
  "find_unique_clusters_dispatch out_of_bounds clusters_flags num_groups_x schedule s =
     fold (find_unique_clusters_main out_of_bounds clusters_flags)
          (schedule (gl_GlobalInvocationIDs num_groups_x)) s"

subsection \<open>Indirect Dispatch Sizer: \<open>update_cull_lights_indirect_args.comp\<close>\<close>

record CullLightsDispatchArgsSSBO =
  num_groups :: uvec3

definition update_cull_lights_indirect_args_main ::
  "UniqueActiveClustersSSBO \<Rightarrow> CullLightsDispatchArgsSSBO \<Rightarrow> CullLightsDispatchArgsSSBO" where
  "update_cull_lights_indirect_args_main uac args =
     args\<lparr>num_groups := (unique_clusters_count uac, 1, 1)\<rparr>"

subsection \<open>Cluster Lookup and shading: \<open>pbr_clustered.frag\<close>\<close>

text \<open>
  What the GLSL implementation delivers. The arithmetic on \<open>float\<close>: the conversion of a
  \<open>uint\<close>, the division, the natural logarithm \<open>log\<close>, the product and the sum, each with
  the implementation's rounding (\<open>None\<close>: an infinity or a NaN); the built-in
  \<open>normalize\<close>; and the result of a conversion to \<open>uint\<close> that the language leaves
  undefined (of a negative or too large value, an infinity or a NaN).
\<close>

record Implementation =
  float_of_uint :: "uint \<Rightarrow> real"
  float_div :: "real \<Rightarrow> real \<Rightarrow> real option"
  float_log :: "real \<Rightarrow> real option"
  float_mul :: "real \<Rightarrow> real \<Rightarrow> real option"
  float_add :: "real \<Rightarrow> real \<Rightarrow> real"
  glsl_normalize :: "vec3 \<Rightarrow> vec3"
  uint_undefined :: "real option \<Rightarrow> uint"

text \<open>
  The constructor \<open>uint(f)\<close>: the fractional part is dropped; defined for
  \<open>0 \<le> f < 2^32\<close>.
\<close>

definition uint_of_float :: "Implementation \<Rightarrow> real option \<Rightarrow> uint" where
  "uint_of_float impl f =
     (case f of
        None \<Rightarrow> uint_undefined impl f
      | Some r \<Rightarrow> if 0 \<le> r \<and> r < 2 ^ 32 then word_of_int \<lfloor>r\<rfloor>
                  else uint_undefined impl f)"

text \<open>\<open>computeClusterIndex1D\<close>, with the uniform \<open>u_grid_dim\<close> it reads as a parameter.\<close>

definition computeClusterIndex1D :: "uvec3 \<Rightarrow> uvec3 \<Rightarrow> uint" where
  "computeClusterIndex1D u_grid_dim cluster_index3D =
     (case (u_grid_dim, cluster_index3D) of
        ((gx, gy, gz), (cx, cy, cz)) \<Rightarrow> cx + (gx * (cy + gy * cz)))"

record Uniforms =
  u_near_z :: real
  u_grid_dim :: uvec3
  u_cluster_size_ss :: uvec2
  u_log_grid_dim_y :: real
  u_debug_slices :: bool

definition computeClusterIndex3D :: "Implementation \<Rightarrow> Uniforms \<Rightarrow> vec2 \<Rightarrow> real \<Rightarrow> uvec3" where
  "computeClusterIndex3D impl u screen_pos view_z =
     (let x = uint_of_float impl
                (float_div impl (fst screen_pos)
                   (float_of_uint impl (fst (u_cluster_size_ss u))));
          y = uint_of_float impl
                (float_div impl (snd screen_pos)
                   (float_of_uint impl (snd (u_cluster_size_ss u))));
          z = uint_of_float impl
                (Option.bind
                   (Option.bind (float_div impl (- view_z) (u_near_z u)) (float_log impl))
                   (\<lambda>l. float_mul impl l (u_log_grid_dim_y u)))
      in (x, y, z))"

text \<open>
  The buffers of the shading stage. \<open>dir_lights\<close> is read through \<open>dir_lights.length()\<close>
  and is a list. The other arrays are only read at computed indices: each is a store from
  the index to the value read there (beyond the end of the buffer GLSL leaves that value
  undefined).
\<close>

record LightGrid =
  offset :: uint
  count :: uint

record ('d, 'p, 's) LightBuffers =
  dir_lights :: "'d list"
  point_lights :: "uint \<Rightarrow> 'p"
  spot_lights :: "uint \<Rightarrow> 's"
  point_light_index_list :: "uint \<Rightarrow> uint"
  point_light_grid :: "uint \<Rightarrow> LightGrid"
  spot_light_index_list :: "uint \<Rightarrow> uint"
  spot_light_grid :: "uint \<Rightarrow> LightGrid"

text \<open>
  The functions of the include file \<open>pbr_lighting.glh\<close>, which is not among the sources,
  are parameters; \<open>'m\<close> is its type \<open>MaterialProperties\<close> and \<open>emission\<close> that
  structure's field.
\<close>

record ('d, 'p, 's, 'm) PbrLighting =
  getMaterialProperties :: "vec3 \<Rightarrow> 'm"
  calcDirectionalLight :: "'d \<Rightarrow> vec3 \<Rightarrow> 'm \<Rightarrow> vec3"
  calcPointLight :: "'p \<Rightarrow> vec3 \<Rightarrow> 'm \<Rightarrow> vec3"
  calcSpotLight :: "'s \<Rightarrow> vec3 \<Rightarrow> 'm \<Rightarrow> vec3"
  indirectLightingIBL :: "vec3 \<Rightarrow> 'm \<Rightarrow> vec3"
  emission :: "'m \<Rightarrow> vec3"

record Fragment =
  gl_FragCoord :: vec2
  in_view_pos :: vec3
  in_world_pos :: vec3
  in_normal :: vec3

text \<open>\<open>radiance += v\<close> on \<open>vec3\<close>: the sum of each component.\<close>

definition vec3_add :: "Implementation \<Rightarrow> vec3 \<Rightarrow> vec3 \<Rightarrow> vec3" where
  "vec3_add impl a b =
     (case (a, b) of
        ((ax, ay, az), (bx, by, bz)) \<Rightarrow>
          (float_add impl ax bx, float_add impl ay by, float_add impl az bz))"

text \<open>
  The loop \<open>for (uint i = 0; i < n; ++i) body\<close>, started at \<open>i\<close>: \<open>acc\<close> is the state
  that the body updates.
\<close>

function for_uint :: "uint \<Rightarrow> uint \<Rightarrow> (uint \<Rightarrow> 'a \<Rightarrow> 'a) \<Rightarrow> 'a \<Rightarrow> 'a" where
  "for_uint i n body acc = (if i < n then for_uint (i + 1) n body (body i acc) else acc)"
  by pat_completeness auto
termination
proof (relation "measure (\<lambda>(i, n, body, acc). unat n - unat i)")
  show "wf (measure (\<lambda>(i :: uint, n :: uint, body :: uint \<Rightarrow> 'a \<Rightarrow> 'a, acc :: 'a). unat n - unat i))"
    by simp
next
  fix i n :: uint and body :: "uint \<Rightarrow> 'a \<Rightarrow> 'a" and acc :: 'a
  assume "i < n"
  then have lt: "unat i < unat n" by (simp add: word_less_nat_alt)
  have "unat n < 2 ^ LENGTH(32)" by (rule unsigned_less)
  then have "unat i + 1 < 2 ^ 32" using lt by simp
  then have "unat (i + 1) = unat i + 1" by (simp add: unat_word_ariths)
  then show "((i + 1, n, body, body i acc), (i, n, body, acc))
               \<in> measure (\<lambda>(i, n, body, acc). unat n - unat i)"
    using lt by simp
qed

declare for_uint.simps [simp del]

definition debug_colors :: "vec3 list" where
  "debug_colors = [(0, 0, 0), (0, 0, 1), (0, 1, 0), (0, 1, 1),
                   (1, 0, 0), (1, 0, 1), (1, 1, 0), (1, 1, 1)]"

text \<open>
  \<open>main\<close> up to the choice of the output colour: the value of \<open>radiance\<close>.
  \<open>dir_lights.length()\<close> is converted to \<open>uint\<close> for the comparison with \<open>i\<close>.
\<close>

definition main_radiance ::
  "Implementation \<Rightarrow> ('d, 'p, 's, 'm) PbrLighting \<Rightarrow> Uniforms \<Rightarrow> ('d, 'p, 's) LightBuffers
     \<Rightarrow> Fragment \<Rightarrow> vec3" where
  "main_radiance impl lib u b frag =
     (let radiance = (0, 0, 0);
          normal = glsl_normalize impl (in_normal frag);
          material = getMaterialProperties lib normal;
          radiance = for_uint 0 (of_nat (length (dir_lights b)))
                       (\<lambda>i radiance.
                          vec3_add impl radiance
                            (calcDirectionalLight lib (dir_lights b ! unat i)
                               (in_world_pos frag) material))
                       radiance;
          cluster_index3D =
            computeClusterIndex3D impl u (gl_FragCoord frag) (snd (snd (in_view_pos frag)));
          cluster_index1D = computeClusterIndex1D (u_grid_dim u) cluster_index3D;
          light_index_offset = offset (point_light_grid b cluster_index1D);
          light_count = count (point_light_grid b cluster_index1D);
          radiance = for_uint 0 light_count
                       (\<lambda>i radiance.
                          (let light_index = point_light_index_list b (light_index_offset + i)
                           in vec3_add impl radiance
                                (calcPointLight lib (point_lights b light_index)
                                   (in_world_pos frag) material)))
                       radiance;
          light_index_offset = offset (spot_light_grid b cluster_index1D);
          light_count = count (spot_light_grid b cluster_index1D);
          radiance = for_uint 0 light_count
                       (\<lambda>i radiance.
                          (let light_index = spot_light_index_list b (light_index_offset + i)
                           in vec3_add impl radiance
                                (calcSpotLight lib (spot_lights b light_index)
                                   (in_world_pos frag) material)))
                       radiance;
          radiance = vec3_add impl radiance
                       (indirectLightingIBL lib (in_world_pos frag) material);
          radiance = vec3_add impl radiance (emission lib material)
      in radiance)"

text \<open>\<open>main\<close>: the output \<open>frag_color\<close>.\<close>

definition pbr_clustered_main ::
  "Implementation \<Rightarrow> ('d, 'p, 's, 'm) PbrLighting \<Rightarrow> Uniforms \<Rightarrow> ('d, 'p, 's) LightBuffers
     \<Rightarrow> Fragment \<Rightarrow> vec3 \<times> real" where
  "pbr_clustered_main impl lib u b frag =
     (let cluster_index3D =
            computeClusterIndex3D impl u (gl_FragCoord frag) (snd (snd (in_view_pos frag)))
      in if u_debug_slices u
         then (debug_colors ! (unat (snd (snd cluster_index3D)) mod 8), 1.0)
         else (main_radiance impl lib u b frag, 1.0))"

subsection \<open>The claimed depth slice\<close>

text \<open>
  The Z slice as the claim states it, in the claim's words:
  \<open>floor (log2 (viewZ / near) * slice_scale + slice_bias)\<close> with
  \<open>slice_scale = Gz / log2 (far / near)\<close> and
  \<open>slice_bias = - Gz * log2 near / log2 (far / near)\<close>, the values that \<open>init_app\<close>
  computes into \<open>m_slice_scale\<close> and \<open>m_slice_bias\<close>.
\<close>

definition claimed_slice :: "real \<Rightarrow> real \<Rightarrow> real \<Rightarrow> real \<Rightarrow> int" where
  "claimed_slice near far gz viewZ =
     (let slice_scale = gz / log 2 (far / near);
          slice_bias = - (gz * log 2 near / log 2 (far / near))
      in \<lfloor>log 2 (viewZ / near) * slice_scale + slice_bias\<rfloor>)"

subsection \<open>Light generation: \<open>hsv2rgb\<close> and \<open>ClusteredShading::GeneratePointLights\<close>\<close>

text \<open>\<open>static_cast<int>\<close> of a float drops the fractional part (rounds towards zero).\<close>

definition static_cast_int :: "real \<Rightarrow> int" where
  "static_cast_int x = (if 0 \<le> x then \<lfloor>x\<rfloor> else \<lceil>x\<rceil>)"

text \<open>C \<open>fmodf x y\<close> for \<open>y \<noteq> 0\<close>: the remainder with the sign of \<open>x\<close>.\<close>

definition fmodf :: "real \<Rightarrow> real \<Rightarrow> real" where
  "fmodf x y = x - y * of_int (static_cast_int (x / y))"

definition vec3_add_scalar :: "vec3 \<Rightarrow> real \<Rightarrow> vec3" where
  "vec3_add_scalar v m = (case v of (r, g, b) \<Rightarrow> (r + m, g + m, b + m))"

text \<open>
  \<open>hsv2rgb\<close>. When no case of the \<open>switch\<close> applies, \<open>RGB\<close> is returned uninitialised:
  the result is then \<open>None\<close>.
\<close>

definition hsv2rgb :: "real \<Rightarrow> real \<Rightarrow> real \<Rightarrow> vec3 option" where
  "hsv2rgb H S V =
     (let C = V * S;
          m = V - C;
          H2 = H / 60;
          X = C * (1 - \<bar>fmodf H2 2 - 1\<bar>);
          k = static_cast_int H2;
          RGB = (if k = 0 then Some (C, X, 0)
                 else if k = 1 then Some (X, C, 0)
                 else if k = 2 then Some (0, C, X)
                 else if k = 3 then Some (0, X, C)
                 else if k = 4 then Some (X, 0, C)
                 else if k = 5 then Some (C, 0, X)
                 else None)
      in map_option (\<lambda>RGB. vec3_add_scalar RGB m) RGB)"

text \<open>\<open>PointLight\<close> with the fields of \<open>BaseLight\<close>, from \<open>clustered_shading.h\<close>.\<close>

record PointLight =
  color :: "vec3 option"
  intensity :: real
  position :: vec3
  radius :: real

text \<open>The members of \<open>ClusteredShading\<close> that \<open>GeneratePointLights\<close> reads and writes.\<close>

record ClusteredShading =
  m_point_lights_count :: uint
  m_point_lights :: "PointLight list"
  m_ellipses_radii :: "vec4 list"
  m_point_lights_intensity :: real
  min_max_point_light_radius :: vec2

text \<open>
  The random generator is the sequence of the unit samples it will deliver, each in
  \<open>[0, 1]\<close>. \<open>glm::linearRand (Min, Max)\<close> takes the next sample \<open>t\<close> and returns
  \<open>t * (Max - Min) + Min\<close> (\<open>lo\<close> and \<open>hi\<close> below).
\<close>

type_synonym rng = "nat \<Rightarrow> real"

definition linearRand :: "real \<Rightarrow> real \<Rightarrow> rng \<Rightarrow> real \<times> rng" where
  "linearRand lo hi g = (g 0 * (hi - lo) + lo, \<lambda>n. g (Suc n))"

text \<open>The value-initialised elements that \<open>resize\<close> creates.\<close>

definition PointLight_zero :: PointLight where
  "PointLight_zero = \<lparr>color = Some (0, 0, 0), intensity = 0, position = (0, 0, 0), radius = 0\<rparr>"

text \<open>
  The body of the loop, for index \<open>i\<close>. The three arguments of \<open>hsv2rgb\<close> are drawn from
  left to right here; C++ leaves their order open.
\<close>

definition GeneratePointLights_body ::
  "ClusteredShading \<Rightarrow> nat \<Rightarrow> PointLight list \<times> vec4 list \<times> rng
     \<Rightarrow> PointLight list \<times> vec4 list \<times> rng" where
  "GeneratePointLights_body app i st =
     (case st of (lights, radii, g) \<Rightarrow>
        (let range_x = 11; range_z = 6;
             p = lights ! i;
             (rand_x, g) = linearRand (- range_x) range_x g;
             (rand_z, g) = linearRand (- range_z) range_z g;
             (H, g) = linearRand 1 360 g;
             (S, g) = linearRand 0.1 1 g;
             (V, g) = linearRand 0.1 1 g;
             p = p\<lparr>color := hsv2rgb H S V\<rparr>;
             p = p\<lparr>intensity := m_point_lights_intensity app\<rparr>;
             (y, g) = linearRand 0.5 12 g;
             p = p\<lparr>position := (fst (position p), y, snd (snd (position p)))\<rparr>;
             (r, g) = linearRand (fst (min_max_point_light_radius app))
                                 (snd (min_max_point_light_radius app)) g;
             p = p\<lparr>radius := r\<rparr>;
             (speed, g) = linearRand 0.5 2 g;
             e = (rand_x, rand_z, speed, 0);
             p = p\<lparr>position := (rand_x * cos (0.01 * speed), fst (snd (position p)),
                                snd (snd (position p)))\<rparr>;
             p = p\<lparr>position := (fst (position p), fst (snd (position p)),
                                rand_z * sin (0.01 * speed))\<rparr>
         in (lights[i := p], radii[i := e], g)))"

definition GeneratePointLights :: "ClusteredShading \<Rightarrow> rng \<Rightarrow> ClusteredShading \<times> rng" where
  "GeneratePointLights app g =
     (let lights = replicate (unat (m_point_lights_count app)) PointLight_zero;
          radii = replicate (unat (m_point_lights_count app)) (0, 0, 0, 0);
          (lights, radii, g) =
             fold (GeneratePointLights_body app) [0..<length lights] (lights, radii, g)
      in (app\<lparr>m_point_lights := lights, m_ellipses_radii := radii\<rparr>, g))"

subsection \<open>Light Culler\<close>







subsection \<open>Example inputs\<close>

definition example_app :: ClusteredShading where
  "example_app =
     \<lparr>m_point_lights_count = 2, m_point_lights = [], m_ellipses_radii = [],
      m_point_lights_intensity = 1, min_max_point_light_radius = (10, 300)\<rparr>"

text \<open>An implementation that computes without rounding.\<close>

definition exact_arithmetic :: Implementation where
  "exact_arithmetic =
     \<lparr>float_of_uint = (\<lambda>w. real (unat w)),
      float_div = (\<lambda>a b. if b = 0 then None else Some (a / b)),
      float_log = (\<lambda>x. if 0 < x then Some (ln x) else None),
      float_mul = (\<lambda>a b. Some (a * b)),
      float_add = (\<lambda>a b. a + b),
      glsl_normalize = (\<lambda>v. v),
      uint_undefined = (\<lambda>f. 0)\<rparr>"

text \<open>
  The uniforms as the application leaves them for a 1280 x 720 window: \<open>u_near_z\<close> is the
  camera's near plane 0.01; \<open>u_log_grid_dim_y\<close> is never set and keeps its initial
  value 0.
\<close>

definition app_uniforms :: Uniforms where
  "app_uniforms =
     \<lparr>u_near_z = 1 / 100, u_grid_dim = (16, 9, 24), u_cluster_size_ss = (80, 80),
      u_log_grid_dim_y = 0, u_debug_slices = False\<rparr>"

definition example_lighting :: "(vec3, vec3, vec3, unit) PbrLighting" where
  "example_lighting =
     \<lparr>getMaterialProperties = (\<lambda>n. ()),
      calcDirectionalLight = (\<lambda>d p m. d),
      calcPointLight = (\<lambda>l p m. l),
      calcSpotLight = (\<lambda>l p m. l),
      indirectLightingIBL = (\<lambda>p m. (0, 0, 0)),
      emission = (\<lambda>m. (0, 0, 0))\<rparr>"

definition example_buffers :: "(vec3, vec3, vec3) LightBuffers" where
  "example_buffers =
     \<lparr>dir_lights = [(1, 2, 3), (10, 20, 30)],
      point_lights = (\<lambda>i. (real (unat i), 0, 0)),
      spot_lights = (\<lambda>i. (0, real (unat i), 0)),
      point_light_index_list = (\<lambda>i. i + 100),
      point_light_grid = (\<lambda>c. \<lparr>offset = 5, count = 2\<rparr>),
      spot_light_index_list = (\<lambda>i. i + 200),
      spot_light_grid = (\<lambda>c. \<lparr>offset = 7, count = 1\<rparr>)\<rparr>"

definition example_fragment :: Fragment where
  "example_fragment =
     \<lparr>gl_FragCoord = (100, 100), in_view_pos = (0, 0, - 1), in_world_pos = (0, 0, 0),
      in_normal = (0, 1, 0)\<rparr>"



subsection \<open>Predicates used in the proofs\<close>

text \<open>Every unit sample is in \<open>[0, 1]\<close>; what one iteration of the loop establishes.\<close>

definition unit_samples :: "rng \<Rightarrow> bool" where
  "unit_samples g = (\<forall>n. 0 \<le> g n \<and> g n \<le> 1)"

definition generated_ok :: "ClusteredShading \<Rightarrow> PointLight \<Rightarrow> bool" where
  "generated_ok app p =
     (intensity p = m_point_lights_intensity app
      \<and> min (fst (min_max_point_light_radius app)) (snd (min_max_point_light_radius app)) \<le> radius p
      \<and> radius p \<le> max (fst (min_max_point_light_radius app)) (snd (min_max_point_light_radius app))
      \<and> 1 / 2 \<le> fst (snd (position p)) \<and> fst (snd (position p)) \<le> 12)"

section \<open>Properties\<close>

subsection \<open>Indirect Dispatch Sizer\<close>

text \<open>
  Claim C4. For every value of the active-cluster counter, the Indirect Dispatch Sizer
  writes the tuple (active count, 1, 1) into the dispatch-arguments buffer, whatever the
  buffer held before; with a zero count the X dimension is zero.
\<close>

theorem sizer_writes_active_count:
  "num_groups (update_cull_lights_indirect_args_main uac args)
     = (unique_clusters_count uac, 1, 1)
   \<and> fst (num_groups (update_cull_lights_indirect_args_main
                        (uac\<lparr>unique_clusters_count := 0\<rparr>) args)) = 0"
  by (simp add: update_cull_lights_indirect_args_main_def)

subsection \<open>Active Cluster Compactor\<close>

lemma find_unique_clusters_main_flagged:
  assumes "clusters_flag ob fl c"
  shows "unique_clusters_count (find_unique_clusters_main ob fl c s) = unique_clusters_count s + 1"
    and "unique_clusters (find_unique_clusters_main ob fl c s)
           = (unique_clusters s)[unat (unique_clusters_count s) := c]"
  using assms by (simp_all add: find_unique_clusters_main_def Let_def)

lemma find_unique_clusters_main_unflagged:
  "\<not> clusters_flag ob fl c \<Longrightarrow> find_unique_clusters_main ob fl c s = s"
  by (simp add: find_unique_clusters_main_def)

lemma unat_Suc_uint: "unat (w :: uint) + 1 < 2 ^ 32 \<Longrightarrow> unat (w + 1) = unat w + 1"
  by (simp add: unat_word_ariths)

lemma find_unique_clusters_fold_count:
  assumes "unat (unique_clusters_count s) + length (filter (clusters_flag ob fl) ids) < 2 ^ 32"
  shows "unat (unique_clusters_count (fold (find_unique_clusters_main ob fl) ids s))
           = unat (unique_clusters_count s) + length (filter (clusters_flag ob fl) ids)"
  using assms
proof (induction ids arbitrary: s)
  case Nil
  then show ?case by simp
next
  case (Cons c cs)
  show ?case
  proof (cases "clusters_flag ob fl c")
    case False
    then show ?thesis
      using Cons.IH [of s] Cons.prems by (simp add: find_unique_clusters_main_unflagged)
  next
    case True
    have cnt: "unat (unique_clusters_count (find_unique_clusters_main ob fl c s))
                 = unat (unique_clusters_count s) + 1"
      using Cons.prems True
      by (simp add: find_unique_clusters_main_flagged(1) unat_Suc_uint)
    have "unat (unique_clusters_count (fold (find_unique_clusters_main ob fl) cs
                  (find_unique_clusters_main ob fl c s)))
            = unat (unique_clusters_count (find_unique_clusters_main ob fl c s))
                + length (filter (clusters_flag ob fl) cs)"
      using Cons.prems True by (intro Cons.IH) (simp add: cnt)
    then show ?thesis using True by (simp add: cnt)
  qed
qed

lemma find_unique_clusters_fold_take:
  assumes "unat (unique_clusters_count s) + length (filter (clusters_flag ob fl) ids)
             \<le> length (unique_clusters s)"
      and "unat (unique_clusters_count s) + length (filter (clusters_flag ob fl) ids) < 2 ^ 32"
  shows "take (unat (unique_clusters_count s) + length (filter (clusters_flag ob fl) ids))
              (unique_clusters (fold (find_unique_clusters_main ob fl) ids s))
           = take (unat (unique_clusters_count s)) (unique_clusters s)
               @ filter (clusters_flag ob fl) ids"
  using assms
proof (induction ids arbitrary: s)
  case Nil
  then show ?case by simp
next
  case (Cons c cs)
  show ?case
  proof (cases "clusters_flag ob fl c")
    case False
    then show ?thesis
      using Cons.IH [of s] Cons.prems by (simp add: find_unique_clusters_main_unflagged)
  next
    case True
    let ?i = "unique_clusters_count s"
    let ?s1 = "find_unique_clusters_main ob fl c s"
    have lt: "unat ?i < length (unique_clusters s)"
      using Cons.prems True by simp
    have cnt: "unat (unique_clusters_count ?s1) = unat ?i + 1"
      using Cons.prems True
      by (simp add: find_unique_clusters_main_flagged(1) unat_Suc_uint)
    have buf: "unique_clusters ?s1 = (unique_clusters s)[unat ?i := c]"
      using True by (rule find_unique_clusters_main_flagged(2))
    have tk: "take (unat ?i + 1) ((unique_clusters s)[unat ?i := c])
                = take (unat ?i) (unique_clusters s) @ [c]"
      using lt by (simp add: take_Suc_conv_app_nth)
    have "take (unat (unique_clusters_count ?s1) + length (filter (clusters_flag ob fl) cs))
            (unique_clusters (fold (find_unique_clusters_main ob fl) cs ?s1))
          = take (unat (unique_clusters_count ?s1)) (unique_clusters ?s1)
              @ filter (clusters_flag ob fl) cs"
      using Cons.prems True by (intro Cons.IH) (simp_all add: cnt buf)
    then show ?thesis using True tk by (simp add: cnt buf)
  qed
qed

lemma card_word_less: "card {c :: uint. c < n} \<le> unat n"
proof -
  have "unat ` {c :: uint. c < n} \<subseteq> {..<unat n}"
    by (auto simp: word_less_nat_alt)
  then have "card (unat ` {c :: uint. c < n}) \<le> card {..<unat n}"
    by (intro card_mono) simp_all
  moreover have "inj_on unat {c :: uint. c < n}"
    by (rule inj_onI) (simp add: word_unat_eq_iff)
  ultimately show ?thesis by (simp add: card_image)
qed

lemma unat_of_nat_small: "k < 2 ^ 32 \<Longrightarrow> unat (of_nat k :: uint) = k"
  by (simp add: unat_of_nat)

lemma invocation_ids_set:
  assumes "local_size_x * num_groups_x \<le> 2 ^ 32"
  shows "set (gl_GlobalInvocationIDs num_groups_x) = {c. unat c < local_size_x * num_groups_x}"
proof (intro set_eqI iffI)
  fix c assume "c \<in> set (gl_GlobalInvocationIDs num_groups_x)"
  then obtain k where k: "k < local_size_x * num_groups_x" "c = of_nat k"
    by (auto simp: gl_GlobalInvocationIDs_def)
  then have "k < 2 ^ 32" using assms by simp
  then show "c \<in> {c. unat c < local_size_x * num_groups_x}"
    using k by (simp add: unat_of_nat_small)
next
  fix c :: uint assume "c \<in> {c. unat c < local_size_x * num_groups_x}"
  then have "unat c \<in> set [0..<local_size_x * num_groups_x]" by simp
  then have "(of_nat (unat c) :: uint) \<in> of_nat ` set [0..<local_size_x * num_groups_x]"
    by (rule imageI)
  then have "(of_nat (unat c) :: uint) \<in> set (gl_GlobalInvocationIDs num_groups_x)"
    by (simp only: gl_GlobalInvocationIDs_def set_map)
  then show "c \<in> set (gl_GlobalInvocationIDs num_groups_x)" by simp
qed

lemma invocation_ids_distinct:
  assumes "local_size_x * num_groups_x \<le> 2 ^ 32"
  shows "distinct (gl_GlobalInvocationIDs num_groups_x)"
proof -
  have "inj_on (of_nat :: nat \<Rightarrow> uint) (set [0..<local_size_x * num_groups_x])"
  proof (rule inj_onI)
    fix j k assume jk: "j \<in> set [0..<local_size_x * num_groups_x]"
      "k \<in> set [0..<local_size_x * num_groups_x]" and e: "(of_nat j :: uint) = of_nat k"
    have "j < 2 ^ 32" "k < 2 ^ 32" using jk assms by simp_all
    then have "unat (of_nat j :: uint) = j" "unat (of_nat k :: uint) = k"
      by (simp_all only: unat_of_nat_small)
    then show "j = k" using e by metis
  qed
  then show ?thesis by (simp add: gl_GlobalInvocationIDs_def distinct_map)
qed

text \<open>
  Claim C2 (amended). The activation mask has one flag per cluster (\<open>n\<close> clusters); the
  dispatch runs work groups of 1024 invocations that cover every cluster, in any order of
  their reservations; no invocation whose index is not below the cluster count reads a set
  flag; the counter was reset to zero at the start of the frame and the dense list has room
  for every cluster. Then after the dispatch the first \<open>unique_clusters_count\<close> entries of
  the dense list hold, as a set, exactly the indices of the flagged clusters, and
  \<open>unique_clusters_count\<close> is the number of flagged clusters. Nothing is said about the
  order of the entries.
\<close>

theorem compactor_flagged_set:
  assumes mask: "length clusters_flags = unat n"
      and groups: "unat n \<le> local_size_x * num_groups_x" "local_size_x * num_groups_x \<le> 2 ^ 32"
      and order: "distinct (schedule (gl_GlobalInvocationIDs num_groups_x))"
                 "set (schedule (gl_GlobalInvocationIDs num_groups_x))
                    = set (gl_GlobalInvocationIDs num_groups_x)"
      and beyond: "\<forall>c \<in> set (gl_GlobalInvocationIDs num_groups_x).
                     unat n \<le> unat c \<longrightarrow> \<not> out_of_bounds c"
      and reset: "unique_clusters_count s = 0"
      and sized: "unat n \<le> length (unique_clusters s)"
  shows "set (take (unat (unique_clusters_count
                      (find_unique_clusters_dispatch out_of_bounds clusters_flags num_groups_x
                         schedule s)))
                   (unique_clusters
                      (find_unique_clusters_dispatch out_of_bounds clusters_flags num_groups_x
                         schedule s)))
           = {c. c < n \<and> clusters_flags ! unat c}
       \<and> unat (unique_clusters_count
                 (find_unique_clusters_dispatch out_of_bounds clusters_flags num_groups_x
                    schedule s))
           = card {c. c < n \<and> clusters_flags ! unat c}"
proof -
  let ?P = "clusters_flag out_of_bounds clusters_flags"
  let ?ids = "schedule (gl_GlobalInvocationIDs num_groups_x)"
  let ?s' = "find_unique_clusters_dispatch out_of_bounds clusters_flags num_groups_x schedule s"
  let ?F = "{c. c < n \<and> clusters_flags ! unat c}"
  have ids: "set ?ids = {c. unat c < local_size_x * num_groups_x}"
    using order(2) invocation_ids_set [OF groups(2)] by simp
  have flagged: "{c \<in> set ?ids. ?P c} = ?F"
  proof (intro set_eqI iffI)
    fix c assume "c \<in> {c \<in> set ?ids. ?P c}"
    then have c: "c \<in> set (gl_GlobalInvocationIDs num_groups_x)" and p: "?P c"
      using order(2) by simp_all
    have "unat c < unat n"
    proof (rule ccontr)
      assume "\<not> unat c < unat n"
      then have "unat n \<le> unat c" by simp
      then have "\<not> out_of_bounds c" using beyond c by blast
      then show False using p \<open>unat n \<le> unat c\<close> mask by (simp add: clusters_flag_def)
    qed
    then show "c \<in> ?F" using p mask by (simp add: clusters_flag_def word_less_nat_alt)
  next
    fix c assume "c \<in> ?F"
    then have c: "unat c < unat n" "clusters_flags ! unat c" by (simp_all add: word_less_nat_alt)
    then have "unat c < local_size_x * num_groups_x" using groups(1) by simp
    then have "c \<in> set ?ids" using ids by simp
    then show "c \<in> {c \<in> set ?ids. ?P c}" using c mask by (simp add: clusters_flag_def)
  qed
  have fin: "finite {c :: uint. c < n}" by simp
  have "?F \<subseteq> {c. c < n}" by auto
  then have "card ?F \<le> card {c :: uint. c < n}" using fin by (rule card_mono [rotated])
  then have cardF: "card ?F \<le> unat n" using card_word_less [of n] by simp
  have "distinct (filter ?P ?ids)" using order(1) by simp
  then have "card (set (filter ?P ?ids)) = length (filter ?P ?ids)" by (rule distinct_card)
  then have len: "length (filter ?P ?ids) = card ?F" using flagged by simp
  have n32: "unat n < 2 ^ LENGTH(32)" by (rule unsigned_less)
  have a: "unat (unique_clusters_count s) + length (filter ?P ?ids) \<le> length (unique_clusters s)"
    using len cardF sized reset by simp
  have b: "unat (unique_clusters_count s) + length (filter ?P ?ids) < 2 ^ 32"
    using len cardF n32 reset by simp
  have cnt: "unat (unique_clusters_count ?s') = length (filter ?P ?ids)"
    using find_unique_clusters_fold_count [OF b] reset
    by (simp add: find_unique_clusters_dispatch_def)
  have tk: "take (unat (unique_clusters_count ?s')) (unique_clusters ?s') = filter ?P ?ids"
    unfolding cnt using find_unique_clusters_fold_take [OF a b] reset
    by (simp add: find_unique_clusters_dispatch_def)
  have "set (take (unat (unique_clusters_count ?s')) (unique_clusters ?s')) = {c \<in> set ?ids. ?P c}"
    unfolding tk by simp
  then have "set (take (unat (unique_clusters_count ?s')) (unique_clusters ?s')) = ?F"
    using flagged by simp
  moreover have "unat (unique_clusters_count ?s') = card ?F" using cnt len by simp
  ultimately show ?thesis by (rule conjI)
qed

lemma uint_less_3: "{c :: uint. c < 3} = {0, 1, 2}"
proof -
  have "c < 3 \<longleftrightarrow> c = 0 \<or> c = 1 \<or> c = 2" for c :: uint
  proof
    assume "c < 3"
    then have "unat c < 3" by (simp add: word_less_nat_alt)
    then have "unat c = 0 \<or> unat c = 1 \<or> unat c = 2" by auto
    then show "c = 0 \<or> c = 1 \<or> c = 2"
      by (auto simp: word_unat_eq_iff)
  qed auto
  then show ?thesis by auto
qed

lemma example_flagged: "{c :: uint. c < 3 \<and> [True, False, True] ! unat c} = {0, 2}"
proof -
  have "{c :: uint. c < 3 \<and> [True, False, True] ! unat c}
          = {c \<in> {c :: uint. c < 3}. [True, False, True] ! unat c}" by simp
  also have "\<dots> = {0, 2}" unfolding uint_less_3 by auto
  finally show ?thesis .
qed

theorem compactor_flagged_set_witness:
  "length [True, False, True] = unat (3 :: uint)
   \<and> unat (3 :: uint) \<le> local_size_x * 1 \<and> local_size_x * 1 \<le> 2 ^ 32
   \<and> distinct (rev (gl_GlobalInvocationIDs 1))
   \<and> set (rev (gl_GlobalInvocationIDs 1)) = set (gl_GlobalInvocationIDs 1)
   \<and> set (take (unat (unique_clusters_count
                      (find_unique_clusters_dispatch (\<lambda>c. False) [True, False, True] 1 rev
                         \<lparr>unique_clusters_count = 0, unique_clusters = [9, 9, 9]\<rparr>)))
                (unique_clusters
                      (find_unique_clusters_dispatch (\<lambda>c. False) [True, False, True] 1 rev
                         \<lparr>unique_clusters_count = 0, unique_clusters = [9, 9, 9]\<rparr>)))
       = {0, 2}
   \<and> unat (unique_clusters_count
              (find_unique_clusters_dispatch (\<lambda>c. False) [True, False, True] 1 rev
                 \<lparr>unique_clusters_count = 0, unique_clusters = [9, 9, 9]\<rparr>)) = 2"
proof -
  let ?s = "\<lparr>unique_clusters_count = 0, unique_clusters = [9, 9, 9]\<rparr>"
  have h1: "length [True, False, True] = unat (3 :: uint)" by simp
  have h2: "unat (3 :: uint) \<le> local_size_x * 1" by (simp add: local_size_x_def)
  have h3: "local_size_x * 1 \<le> 2 ^ 32" by (simp add: local_size_x_def)
  have h4: "distinct (rev (gl_GlobalInvocationIDs 1))"
    using invocation_ids_distinct [OF h3] by simp
  have h5: "set (rev (gl_GlobalInvocationIDs 1)) = set (gl_GlobalInvocationIDs 1)" by simp
  have h6: "\<forall>c \<in> set (gl_GlobalInvocationIDs 1). unat (3 :: uint) \<le> unat c \<longrightarrow> \<not> (\<lambda>c. False) c"
    by simp
  have h7: "unique_clusters_count ?s = 0" by simp
  have h8: "unat (3 :: uint) \<le> length (unique_clusters ?s)" by simp
  have card2: "card {0, 2 :: uint} = 2" by simp
  show ?thesis
    using compactor_flagged_set [where schedule = rev and out_of_bounds = "\<lambda>c. False"
            and num_groups_x = 1 and n = 3 and clusters_flags = "[True, False, True]"
            and s = ?s, OF h1 h2 h3 h4 h5 h6 h7 h8]
          h1 h2 h3 h4 h5
    unfolding example_flagged card2 by blast
qed

lemma filter_from: "m \<le> n \<Longrightarrow> filter (\<lambda>k. m \<le> k) [0..<n] = [m..<n]"
proof -
  assume mn: "m \<le> n"
  have "[0..<m + (n - m)] = [0..<m] @ [m..<m + (n - m)]" by (rule upt_add_eq_append) simp
  then have "[0..<n] = [0..<m] @ [m..<n]" using mn by simp
  moreover have "filter (\<lambda>k. m \<le> k) [0..<m] = []" by (simp add: filter_empty_conv)
  moreover have "filter (\<lambda>k. m \<le> k) [m..<n] = [m..<n]" by (simp add: filter_id_conv)
  ultimately show ?thesis by simp
qed

text \<open>
  The shader does not guard \<open>cluster_id\<close>. For the application's 3456 clusters the
  dispatch needs four work groups, 4096 invocations; when the reads beyond the end of a
  mask of 3456 cleared flags yield a set flag, the 640 invocations beyond the mask each
  append their index: the counter ends at 640 although no cluster is flagged.
\<close>

theorem compactor_unguarded_counterexample:
  "length (replicate 3456 False) = unat (3456 :: uint)
   \<and> unat (3456 :: uint) \<le> local_size_x * 4
   \<and> card {c :: uint. c < 3456 \<and> replicate 3456 False ! unat c} = 0
   \<and> unat (unique_clusters_count
              (find_unique_clusters_dispatch (\<lambda>c. True) (replicate 3456 False) 4 (\<lambda>ids. ids)
                 \<lparr>unique_clusters_count = 0, unique_clusters = replicate 3456 0\<rparr>)) = 640"
proof -
  let ?P = "clusters_flag (\<lambda>c. True) (replicate 3456 False)"
  let ?s = "\<lparr>unique_clusters_count = 0, unique_clusters = replicate 3456 0\<rparr>"
  have N: "local_size_x * 4 = 4096" by (simp add: local_size_x_def)
  have pk: "?P (of_nat k) = (3456 \<le> k)" if "k \<in> set [0..<4096]" for k
  proof -
    have "k < 2 ^ 32" using that by simp
    then have "unat (of_nat k :: uint) = k" by (rule unat_of_nat_small)
    then show ?thesis by (simp add: clusters_flag_def)
  qed
  have "filter ?P (gl_GlobalInvocationIDs 4) = map of_nat (filter (?P \<circ> of_nat) [0..<4096])"
    by (simp only: gl_GlobalInvocationIDs_def N filter_map)
  also have "filter (?P \<circ> of_nat) [0..<4096] = filter (\<lambda>k. 3456 \<le> k) [0..<4096]"
    using pk by (intro filter_cong) simp_all
  also have "\<dots> = [3456..<4096]" by (rule filter_from) simp
  finally have len: "length (filter ?P (gl_GlobalInvocationIDs 4)) = 640" by simp
  have "unat (unique_clusters_count ?s) + length (filter ?P (gl_GlobalInvocationIDs 4)) < 2 ^ 32"
    by (simp add: len)
  from find_unique_clusters_fold_count [OF this]
  have cnt: "unat (unique_clusters_count
              (find_unique_clusters_dispatch (\<lambda>c. True) (replicate 3456 False) 4 (\<lambda>ids. ids) ?s))
             = 640"
    by (simp add: find_unique_clusters_dispatch_def len)
  have "{c :: uint. c < 3456 \<and> replicate 3456 False ! unat c} = {}"
    by (auto simp: word_less_nat_alt)
  then have "card {c :: uint. c < 3456 \<and> replicate 3456 False ! unat c} = 0" by simp
  then show ?thesis using cnt by (simp add: local_size_x_def)
qed

subsection \<open>Flat cluster index\<close>

lemma flat_nat_bound:
  fixes x y z gx gy gz :: nat
  assumes "x < gx" "y < gy" "z < gz"
  shows "x + gx * (y + gy * z) < gx * gy * gz"
proof -
  have "y + gy * z + 1 \<le> gy + gy * z" using assms by simp
  also have "\<dots> = gy * (z + 1)" by simp
  also have "\<dots> \<le> gy * gz" using assms by (intro mult_le_mono2) simp
  finally have a: "y + gy * z + 1 \<le> gy * gz" .
  have "x + gx * (y + gy * z) < gx + gx * (y + gy * z)" using assms by simp
  also have "\<dots> = gx * (y + gy * z + 1)" by simp
  also have "\<dots> \<le> gx * (gy * gz)" using a by (intro mult_le_mono2)
  finally show ?thesis by (simp add: mult.assoc)
qed

lemma radix_nat_inj:
  fixes x x' a a' g :: nat
  assumes "x < g" "x' < g" "x + g * a = x' + g * a'"
  shows "x = x' \<and> a = a'"
proof -
  have "(x + g * a) mod g = (x' + g * a') mod g" using assms(3) by simp
  then have "x = x'" using assms(1,2) by simp
  then have "g * a = g * a'" using assms(3) by simp
  moreover have "0 < g" using assms by simp
  ultimately show ?thesis using \<open>x = x'\<close> by simp
qed

lemma unat_computeClusterIndex1D:
  assumes "unat cx + unat gx * (unat cy + unat gy * unat cz) < 2 ^ 32" "0 < unat gx"
  shows "unat (computeClusterIndex1D (gx, gy, gz) (cx, cy, cz))
         = unat cx + unat gx * (unat cy + unat gy * unat cz)"
proof -
  have b1: "unat gx * (unat cy + unat gy * unat cz) < 2 ^ 32" using assms by simp
  have "unat cy + unat gy * unat cz \<le> unat gx * (unat cy + unat gy * unat cz)"
    using assms(2) by simp
  then have b2: "unat cy + unat gy * unat cz < 2 ^ 32" using b1 by (rule le_less_trans)
  then have b3: "unat gy * unat cz < 2 ^ 32" by simp
  have "unat (gy * cz) = unat gy * unat cz"
    using b3 by (simp add: unat_word_ariths)
  then have "unat (cy + gy * cz) = unat cy + unat gy * unat cz"
    using b2 by (simp add: unat_word_ariths)
  then have "unat (gx * (cy + gy * cz)) = unat gx * (unat cy + unat gy * unat cz)"
    using b1 by (simp add: unat_word_ariths)
  then show ?thesis
    using assms(1) by (simp add: computeClusterIndex1D_def unat_word_ariths)
qed

lemma radix_nat_surj:
  fixes n gx gy gz :: nat
  assumes "n < gx * gy * gz"
  shows "n mod gx < gx \<and> (n div gx) mod gy < gy \<and> (n div gx) div gy < gz
         \<and> n mod gx + gx * ((n div gx) mod gy + gy * ((n div gx) div gy)) = n"
proof -
  have gx: "0 < gx" using assms by (cases gx) simp_all
  have gy: "0 < gy" using assms by (cases gy) simp_all
  have "gx * gy * gz = (gz * gy) * gx" by (simp add: ac_simps)
  with assms have "n < (gz * gy) * gx" by (rule subst [rotated])
  then have "n div gx < gz * gy" by (rule less_mult_imp_div_less)
  then have "(n div gx) div gy < gz" by (rule less_mult_imp_div_less)
  then show ?thesis using gx gy by simp
qed

text \<open>
  Claim C5 (amended). When the cluster count \<open>Gx * Gy * Gz\<close> fits the 32-bit index
  (\<open>Gx * Gy * Gz \<le> 2^32\<close>), then for every 3-D cluster index \<open>(x, y, z)\<close> with
  \<open>x < Gx\<close>, \<open>y < Gy\<close>, \<open>z < Gz\<close> the flat index is \<open>x + Gx * (y + Gy * z)\<close>, and the
  mapping is a bijection from the 3-D index domain onto \<open>[0, Gx * Gy * Gz)\<close>.
\<close>

theorem computeClusterIndex1D_bijection:
  assumes fits: "unat gx * unat gy * unat gz \<le> 2 ^ 32"
  shows "(\<forall>x y z. x < gx \<and> y < gy \<and> z < gz \<longrightarrow>
            unat (computeClusterIndex1D (gx, gy, gz) (x, y, z))
              = unat x + unat gx * (unat y + unat gy * unat z))
       \<and> bij_betw (computeClusterIndex1D (gx, gy, gz))
            {(x, y, z). x < gx \<and> y < gy \<and> z < gz}
            {i. unat i < unat gx * unat gy * unat gz}"
proof -
  let ?D = "{(x, y, z). x < gx \<and> y < gy \<and> z < gz}"
  let ?R = "{i :: uint. unat i < unat gx * unat gy * unat gz}"
  let ?f = "computeClusterIndex1D (gx, gy, gz)"
  have val: "unat (?f (x, y, z)) = unat x + unat gx * (unat y + unat gy * unat z)"
       and bnd: "unat x + unat gx * (unat y + unat gy * unat z) < unat gx * unat gy * unat gz"
    if "x < gx" "y < gy" "z < gz" for x y z
  proof -
    have lt: "unat x < unat gx" "unat y < unat gy" "unat z < unat gz"
      using that by (simp_all add: word_less_nat_alt)
    show b: "unat x + unat gx * (unat y + unat gy * unat z) < unat gx * unat gy * unat gz"
      using lt by (rule flat_nat_bound)
    then have "unat x + unat gx * (unat y + unat gy * unat z) < 2 ^ 32"
      using fits by (rule less_le_trans)
    moreover have "0 < unat gx" using lt(1) by simp
    ultimately show "unat (?f (x, y, z)) = unat x + unat gx * (unat y + unat gy * unat z)"
      by (rule unat_computeClusterIndex1D)
  qed
  have inj: "inj_on ?f ?D"
  proof (rule inj_onI)
    fix p q assume p: "p \<in> ?D" and q: "q \<in> ?D" and eq: "?f p = ?f q"
    obtain x y z where pp: "p = (x, y, z)" by (cases p) auto
    obtain x' y' z' where qq: "q = (x', y', z')" by (cases q) auto
    have lp: "x < gx" "y < gy" "z < gz" and lq: "x' < gx" "y' < gy" "z' < gz"
      using p q pp qq by simp_all
    have "unat x + unat gx * (unat y + unat gy * unat z)
          = unat x' + unat gx * (unat y' + unat gy * unat z')"
      using val [OF lp] val [OF lq] eq pp qq by simp
    moreover have "unat x < unat gx" "unat x' < unat gx" "unat y < unat gy" "unat y' < unat gy"
      using lp lq by (simp_all add: word_less_nat_alt)
    ultimately have xa: "unat x = unat x' \<and> unat y + unat gy * unat z = unat y' + unat gy * unat z'"
      by (intro radix_nat_inj [of "unat x" "unat gx" "unat x'"])
    then have "unat y = unat y' \<and> unat z = unat z'"
      using \<open>unat y < unat gy\<close> \<open>unat y' < unat gy\<close>
      by (intro radix_nat_inj [of "unat y" "unat gy" "unat y'"]) simp_all
    with xa have "unat x = unat x'" "unat y = unat y'" "unat z = unat z'" by simp_all
    then show "p = q" using pp qq by (simp add: word_unat_eq_iff)
  qed
  have sub: "?f ` ?D \<subseteq> ?R"
  proof
    fix i assume "i \<in> ?f ` ?D"
    then obtain x y z where "i = ?f (x, y, z)" "x < gx" "y < gy" "z < gz" by auto
    then show "i \<in> ?R" using val [of x y z] bnd [of x y z] by simp
  qed
  have sup: "?R \<subseteq> ?f ` ?D"
  proof
    fix i assume "i \<in> ?R"
    then have n: "unat i < unat gx * unat gy * unat gz" by simp
    define x :: uint where "x = of_nat (unat i mod unat gx)"
    define y :: uint where "y = of_nat ((unat i div unat gx) mod unat gy)"
    define z :: uint where "z = of_nat ((unat i div unat gx) div unat gy)"
    note r = radix_nat_surj [OF n]
    have small: "k < 2 ^ 32" if "k < unat (g :: uint)" for k g
    proof -
      have "unat g < 2 ^ LENGTH(32)" by (rule unsigned_less)
      then show ?thesis using that by simp
    qed
    have ux: "unat x = unat i mod unat gx"
    proof -
      have "unat i mod unat gx < 2 ^ 32" using r small by blast
      then show ?thesis unfolding x_def by (simp add: unat_of_nat)
    qed
    have uy: "unat y = (unat i div unat gx) mod unat gy"
    proof -
      have "(unat i div unat gx) mod unat gy < 2 ^ 32" using r small by blast
      then show ?thesis unfolding y_def by (simp add: unat_of_nat)
    qed
    have uz: "unat z = (unat i div unat gx) div unat gy"
    proof -
      have "(unat i div unat gx) div unat gy < 2 ^ 32" using r small by blast
      then show ?thesis unfolding z_def by (simp add: unat_of_nat)
    qed
    have lt: "x < gx" "y < gy" "z < gz"
      using r ux uy uz by (simp_all add: word_less_nat_alt)
    have "unat (?f (x, y, z)) = unat i"
      using val [OF lt] r ux uy uz by simp
    then have "?f (x, y, z) = i" by (simp add: word_unat_eq_iff)
    moreover have "(x, y, z) \<in> ?D" using lt by simp
    ultimately show "i \<in> ?f ` ?D" by (rule image_eqI [OF sym])
  qed
  have "?f ` ?D = ?R" using sub sup by (rule subset_antisym)
  then have "bij_betw ?f ?D ?R"
    unfolding bij_betw_def using inj by (rule conjI [rotated])
  moreover have "\<forall>x y z. x < gx \<and> y < gy \<and> z < gz \<longrightarrow>
            unat (?f (x, y, z)) = unat x + unat gx * (unat y + unat gy * unat z)"
    using val by blast
  ultimately show ?thesis by (rule conjI [rotated])
qed

theorem computeClusterIndex1D_bijection_witness:
  "unat (16 :: uint) * unat (9 :: uint) * unat (24 :: uint) \<le> 2 ^ 32
   \<and> unat (computeClusterIndex1D (16, 9, 24) (3, 2, 1)) = 3 + 16 * (2 + 9 * 1)
   \<and> bij_betw (computeClusterIndex1D (16, 9, 24))
        {(x, y, z). x < 16 \<and> y < 9 \<and> z < 24} {i. unat i < 16 * 9 * 24}"
proof -
  have h: "unat (16 :: uint) * unat (9 :: uint) * unat (24 :: uint) \<le> 2 ^ 32" by simp
  have "(3 :: uint) < 16 \<and> (2 :: uint) < 9 \<and> (1 :: uint) < 24" by simp
  then show ?thesis
    using h computeClusterIndex1D_bijection [OF h] by simp
qed

text \<open>
  Without the bound the \<open>uint\<close> arithmetic wraps: in a grid of 65536 x 65536 x 2 clusters
  the cluster (0, 0, 1) gets the flat index of the cluster (0, 0, 0), and that index is not
  \<open>x + Gx * (y + Gy * z)\<close>.
\<close>

theorem computeClusterIndex1D_overflow_counterexample:
  "computeClusterIndex1D (65536, 65536, 2) (0, 0, 1) = computeClusterIndex1D (65536, 65536, 2) (0, 0, 0)
   \<and> (0 :: uint) < 65536 \<and> (1 :: uint) < 2
   \<and> unat (computeClusterIndex1D (65536, 65536, 2) (0, 0, 1))
       \<noteq> unat (0 :: uint) + unat (65536 :: uint) * (unat (0 :: uint) + unat (65536 :: uint) * unat (1 :: uint))"
  by (simp add: computeClusterIndex1D_def)

subsection \<open>Shading stage\<close>

lemma unat_succ_below:
  assumes "i < (n :: uint)"
  shows "unat (i + 1) = Suc (unat i)"
proof -
  have lt: "unat i < unat n" using assms by (simp add: word_less_nat_alt)
  have "unat n < 2 ^ LENGTH(32)" by (rule unsigned_less)
  then have "unat i + 1 < 2 ^ 32" using lt by simp
  then show ?thesis by (simp add: unat_word_ariths)
qed

lemma for_uint_foldl:
  "for_uint i n body acc = foldl (\<lambda>a k. body (of_nat k) a) acc [unat i..<unat n]"
proof (induction i n body acc rule: for_uint.induct)
  case (1 i n body acc)
  show ?case
  proof (cases "i < n")
    case True
    then have lt: "unat i < unat n" by (simp add: word_less_nat_alt)
    have step: "for_uint i n body acc = for_uint (i + 1) n body (body i acc)"
      using True by (subst for_uint.simps) simp
    have "for_uint (i + 1) n body (body i acc)
            = foldl (\<lambda>a k. body (of_nat k) a) (body i acc) [unat (i + 1)..<unat n]"
      using True by (rule "1.IH")
    also have "\<dots> = foldl (\<lambda>a k. body (of_nat k) a) (body i acc) [Suc (unat i)..<unat n]"
      using True by (simp add: unat_succ_below)
    also have "\<dots> = foldl (\<lambda>a k. body (of_nat k) a) acc [unat i..<unat n]"
      using lt by (simp add: upt_conv_Cons)
    finally show ?thesis using step by simp
  next
    case False
    then have "unat n \<le> unat i" by (simp add: word_less_nat_alt)
    moreover have "for_uint i n body acc = acc"
      using False by (subst for_uint.simps) simp
    ultimately show ?thesis by simp
  qed
qed

lemma for_uint_from_zero:
  "for_uint 0 n body acc = foldl (\<lambda>a k. body (of_nat k) a) acc [0..<unat n]"
  using for_uint_foldl [of 0 n body acc] by simp

lemma foldl_vec3_add:
  "foldl (vec3_add impl) (a, b, c) xs
     = (foldl (float_add impl) a (map fst xs),
        foldl (float_add impl) b (map (fst \<circ> snd) xs),
        foldl (float_add impl) c (map (snd \<circ> snd) xs))"
proof (induction xs arbitrary: a b c)
  case Nil
  then show ?case by simp
next
  case (Cons x xs)
  obtain x1 x2 x3 where x: "x = (x1, x2, x3)" by (cases x) auto
  show ?case using Cons [of "float_add impl a x1" "float_add impl b x2" "float_add impl c x3"]
    by (simp add: x vec3_add_def)
qed

lemma dir_lights_indices:
  assumes "length ds < 2 ^ 31"
  shows "unat (of_nat (length ds) :: uint) = length ds"
    and "map (\<lambda>k. g (ds ! unat (of_nat k :: uint))) [0..<length ds] = map g ds"
proof -
  have small: "k < 2 ^ 32" if "k \<le> length ds" for k
  proof -
    have "(2 :: nat) ^ 31 \<le> 2 ^ 32" by simp
    then show ?thesis using that assms by linarith
  qed
  show "unat (of_nat (length ds) :: uint) = length ds"
    using small [of "length ds"] by (simp add: unat_of_nat)
  have "g (ds ! unat (of_nat k :: uint)) = g (ds ! k)" if "k < length ds" for k
    using small [of k] that by (simp add: unat_of_nat)
  then have "map (\<lambda>k. g (ds ! unat (of_nat k :: uint))) [0..<length ds]
               = map (\<lambda>k. g (ds ! k)) [0..<length ds]"
    by simp
  also have "\<dots> = map g (map ((!) ds) [0..<length ds])" by simp
  also have "\<dots> = map g ds" by (simp only: map_nth)
  finally show "map (\<lambda>k. g (ds ! unat (of_nat k :: uint))) [0..<length ds] = map g ds" .
qed

text \<open>
  Claim C6. For every fragment, whatever cluster it falls into and whatever the light
  grids hold, each component of the radiance is the sum, accumulated in this order from
  zero with the implementation's addition, of that component of: the contribution of every
  directional light of the directional-light buffer; the contributions of the point lights
  at the positions \<open>offset\<close>, ..., \<open>offset + count - 1\<close> of the point-light index list,
  where (\<open>offset\<close>, \<open>count\<close>) is the point-light grid entry of the fragment's cluster; the
  contributions of the spot lights of the fragment's cluster's range likewise; the indirect
  lighting; the emission. Directional lights are never culled; point and spot lights come
  only from the cluster's index range. The length of the directional-light buffer is an
  \<open>int\<close>.
\<close>

theorem shading_light_accumulation:
  assumes "length (dir_lights b) < 2 ^ 31"
  shows "main_radiance impl lib u b frag =
     (let material = getMaterialProperties lib (glsl_normalize impl (in_normal frag));
          world_pos = in_world_pos frag;
          c = computeClusterIndex1D (u_grid_dim u)
                (computeClusterIndex3D impl u (gl_FragCoord frag) (snd (snd (in_view_pos frag))));
          contributions =
            map (\<lambda>d. calcDirectionalLight lib d world_pos material) (dir_lights b)
            @ map (\<lambda>k. calcPointLight lib
                          (point_lights b
                             (point_light_index_list b
                                (offset (point_light_grid b c) + of_nat k)))
                          world_pos material)
                [0..<unat (count (point_light_grid b c))]
            @ map (\<lambda>k. calcSpotLight lib
                          (spot_lights b
                             (spot_light_index_list b
                                (offset (spot_light_grid b c) + of_nat k)))
                          world_pos material)
                [0..<unat (count (spot_light_grid b c))]
            @ [indirectLightingIBL lib world_pos material, emission lib material]
      in (foldl (float_add impl) 0 (map fst contributions),
          foldl (float_add impl) 0 (map (fst \<circ> snd) contributions),
          foldl (float_add impl) 0 (map (snd \<circ> snd) contributions)))"
proof -
  define material where "material = getMaterialProperties lib (glsl_normalize impl (in_normal frag))"
  define c where "c = computeClusterIndex1D (u_grid_dim u)
                (computeClusterIndex3D impl u (gl_FragCoord frag) (snd (snd (in_view_pos frag))))"
  define dirs where
    "dirs = map (\<lambda>d. calcDirectionalLight lib d (in_world_pos frag) material) (dir_lights b)"
  define points where
    "points = map (\<lambda>k. calcPointLight lib
                          (point_lights b
                             (point_light_index_list b
                                (offset (point_light_grid b c) + of_nat k)))
                          (in_world_pos frag) material)
                [0..<unat (count (point_light_grid b c))]"
  define spots where
    "spots = map (\<lambda>k. calcSpotLight lib
                          (spot_lights b
                             (spot_light_index_list b
                                (offset (spot_light_grid b c) + of_nat k)))
                          (in_world_pos frag) material)
                [0..<unat (count (spot_light_grid b c))]"
  define rest where
    "rest = [indirectLightingIBL lib (in_world_pos frag) material, emission lib material]"
  have d: "for_uint 0 (of_nat (length (dir_lights b)))
             (\<lambda>i radiance. vec3_add impl radiance
                 (calcDirectionalLight lib (dir_lights b ! unat i) (in_world_pos frag) material))
             r
           = foldl (vec3_add impl) r dirs" for r
  proof -
    have "foldl (vec3_add impl) r dirs
            = foldl (vec3_add impl) r
                (map (\<lambda>k. calcDirectionalLight lib (dir_lights b ! unat (of_nat k :: uint))
                             (in_world_pos frag) material)
                   [0..<length (dir_lights b)])"
      unfolding dirs_def
      using dir_lights_indices(2) [OF assms,
              of "\<lambda>d. calcDirectionalLight lib d (in_world_pos frag) material"]
      by simp
    then show ?thesis
      by (simp add: for_uint_from_zero foldl_map dir_lights_indices(1) [OF assms])
  qed
  have p: "for_uint 0 (count (point_light_grid b c))
             (\<lambda>i radiance.
                 vec3_add impl radiance
                   (calcPointLight lib
                      (point_lights b (point_light_index_list b (offset (point_light_grid b c) + i)))
                      (in_world_pos frag) material))
             r
           = foldl (vec3_add impl) r points" for r
    by (simp add: points_def for_uint_from_zero foldl_map)
  have s: "for_uint 0 (count (spot_light_grid b c))
             (\<lambda>i radiance.
                 vec3_add impl radiance
                   (calcSpotLight lib
                      (spot_lights b (spot_light_index_list b (offset (spot_light_grid b c) + i)))
                      (in_world_pos frag) material))
             r
           = foldl (vec3_add impl) r spots" for r
    by (simp add: spots_def for_uint_from_zero foldl_map)
  have "main_radiance impl lib u b frag
          = foldl (vec3_add impl) (0, 0, 0) (dirs @ points @ spots @ rest)"
    unfolding main_radiance_def Let_def
    by (simp only: material_def [symmetric] c_def [symmetric] d p s foldl_append)
       (simp add: rest_def)
  then show ?thesis
    unfolding foldl_vec3_add Let_def
    by (simp only: material_def c_def dirs_def points_def spots_def rest_def)
qed

theorem shading_light_accumulation_witness:
  "length (dir_lights example_buffers) < 2 ^ 31
   \<and> main_radiance exact_arithmetic example_lighting app_uniforms example_buffers example_fragment
       = (222, 229, 33)"
proof -
  have h: "length (dir_lights example_buffers) < 2 ^ 31" by (simp add: example_buffers_def)
  have u2: "[0..<2] = [0, Suc 0]" by (simp add: upt_rec)
  show ?thesis
    using shading_light_accumulation [OF h, of exact_arithmetic example_lighting app_uniforms
        example_fragment] h
    by (simp add: Let_def example_buffers_def example_lighting_def exact_arithmetic_def u2)
qed

subsection \<open>Depth slices\<close>

lemma computeClusterIndex3D_z:
  "snd (snd (computeClusterIndex3D impl u screen_pos view_z))
     = uint_of_float impl
         (Option.bind
            (Option.bind (float_div impl (- view_z) (u_near_z u)) (float_log impl))
            (\<lambda>l. float_mul impl l (u_log_grid_dim_y u)))"
  by (simp add: computeClusterIndex3D_def Let_def)

text \<open>
  Claim C1, the code at the failing input. The shader scales the logarithm by the uniform
  \<open>u_log_grid_dim_y\<close>, which the application never sets, and declares neither
  \<open>u_slice_scale\<close> nor \<open>u_slice_bias\<close>, which the host computes and uploads. With the
  uniform at its initial value 0, the Z component of the cluster index is 0 for every
  fragment whose quotient \<open>- view_z / near\<close> and its logarithm are finite, on every
  implementation in which that logarithm times zero is zero: the slice does not depend
  on the depth, whereas the claimed slice at depth 1 of the application's camera is 21.
\<close>

theorem lookup_z_unset_uniform:
  assumes unset: "u_log_grid_dim_y u = 0"
      and quotient: "float_div impl (- view_z) (u_near_z u) = Some q"
      and logarithm: "float_log impl q = Some l"
      and times_zero: "float_mul impl l 0 = Some 0"
  shows "snd (snd (computeClusterIndex3D impl u screen_pos view_z)) = 0"
  using assms by (simp add: computeClusterIndex3D_z uint_of_float_def)

lemma claimed_slice_app: "claimed_slice (1 / 100) 300 24 1 = 21"
proof -
  have l100: "0 < ln (100 :: real)" and l30000: "0 < ln (30000 :: real)" by simp_all
  have lo: "21 * ln (30000 :: real) \<le> 48 * ln 100"
  proof -
    have "ln ((30000 :: real) ^ 21) \<le> ln (100 ^ 48)" by (subst ln_le_cancel_iff) simp_all
    then have "real 21 * ln (30000 :: real) \<le> real 48 * ln 100" by (simp only: ln_realpow)
    then show ?thesis by simp
  qed
  have hi: "48 * ln (100 :: real) < 22 * ln 30000"
  proof -
    have "ln ((100 :: real) ^ 48) < ln (30000 ^ 22)" by (subst ln_less_cancel_iff) simp_all
    then have "real 48 * ln (100 :: real) < real 22 * ln 30000" by (simp only: ln_realpow)
    then show ?thesis by simp
  qed
  define v where "v = 48 * ln (100 :: real) / ln 30000"
  have v: "21 \<le> v" "v < 22"
    using lo hi l30000 by (simp_all add: v_def field_simps)
  have half: "log 2 (1 / 100 :: real) = - log 2 100"
    by (simp add: log_def ln_div)
  have "log 2 (1 / (1 / 100)) * (24 / log 2 (300 / (1 / 100)))
          + - (24 * log 2 (1 / 100) / log 2 (300 / (1 / 100))) = v"
    unfolding v_def half by (simp add: log_def field_simps)
  then have "claimed_slice (1 / 100) 300 24 1 = \<lfloor>v\<rfloor>"
    by (simp add: claimed_slice_def Let_def)
  moreover have "\<lfloor>v\<rfloor> = 21" using v by (simp add: floor_eq_iff)
  ultimately show ?thesis by simp
qed

theorem lookup_z_unset_uniform_witness:
  "u_log_grid_dim_y app_uniforms = 0
   \<and> float_div exact_arithmetic (- (- 1)) (u_near_z app_uniforms) = Some 100
   \<and> float_log exact_arithmetic 100 = Some (ln 100)
   \<and> float_mul exact_arithmetic (ln 100) 0 = Some 0
   \<and> snd (snd (computeClusterIndex3D exact_arithmetic app_uniforms (640, 360) (- 1))) = 0
   \<and> claimed_slice (u_near_z app_uniforms) 300 24 1 = 21"
proof -
  have h1: "u_log_grid_dim_y app_uniforms = 0" by (simp add: app_uniforms_def)
  have h2: "float_div exact_arithmetic (- (- 1)) (u_near_z app_uniforms) = Some 100"
    by (simp add: app_uniforms_def exact_arithmetic_def)
  have h3: "float_log exact_arithmetic 100 = Some (ln 100)"
    by (simp add: exact_arithmetic_def)
  have h4: "float_mul exact_arithmetic (ln 100) 0 = Some 0"
    by (simp add: exact_arithmetic_def)
  have c: "claimed_slice (u_near_z app_uniforms) 300 24 1 = 21"
    using claimed_slice_app by (simp add: app_uniforms_def)
  show ?thesis
    using lookup_z_unset_uniform [OF h1 h2 h3 h4, of "(640, 360)"] h1 h2 h3 h4 c by simp
qed

subsection \<open>Light generation\<close>

lemma scaled_sample_between:
  fixes t lo hi :: real
  assumes "0 \<le> t" "t \<le> 1"
  shows "min lo hi \<le> t * (hi - lo) + lo" "t * (hi - lo) + lo \<le> max lo hi"
proof -
  have e: "t * (hi - lo) + lo = (1 - t) * lo + t * hi" by (simp add: algebra_simps)
  have "(1 - t) * min lo hi \<le> (1 - t) * lo" "t * min lo hi \<le> t * hi"
    using assms by (simp_all add: mult_left_mono)
  then have "(1 - t) * min lo hi + t * min lo hi \<le> (1 - t) * lo + t * hi" by (rule add_mono)
  then show "min lo hi \<le> t * (hi - lo) + lo" unfolding e by (simp add: algebra_simps)
  have "(1 - t) * lo \<le> (1 - t) * max lo hi" "t * hi \<le> t * max lo hi"
    using assms by (simp_all add: mult_left_mono)
  then have "(1 - t) * lo + t * hi \<le> (1 - t) * max lo hi + t * max lo hi" by (rule add_mono)
  then show "t * (hi - lo) + lo \<le> max lo hi" unfolding e by (simp add: algebra_simps)
qed

lemma linearRand_between:
  assumes "unit_samples g"
  shows "min lo hi \<le> fst (linearRand lo hi g)" "fst (linearRand lo hi g) \<le> max lo hi"
  using assms scaled_sample_between [where t = "g 0" and lo = lo and hi = hi]
  by (simp_all add: linearRand_def unit_samples_def)

lemma linearRand_rest: "unit_samples g \<Longrightarrow> unit_samples (snd (linearRand lo hi g))"
  by (simp add: linearRand_def unit_samples_def)

lemma GeneratePointLights_body_shape:
  assumes "unit_samples g"
  shows "\<exists>p e g'. GeneratePointLights_body app i (lights, radii, g)
                    = (lights[i := p], radii[i := e], g')
                 \<and> generated_ok app p \<and> unit_samples g'"
proof -
  have y: "1 \<le> fst (linearRand (1 / 2) 12 h) * 2" "fst (linearRand (1 / 2) 12 h) \<le> 12"
    if "unit_samples h" for h
    using linearRand_between [OF that, where lo = "1 / 2" and hi = 12] by simp_all
  show ?thesis
    unfolding GeneratePointLights_body_def Let_def split_def fst_conv snd_conv
    apply (intro exI conjI)
      apply (rule refl)
     apply (simp add: generated_ok_def linearRand_rest linearRand_between y assms)
    apply (simp add: linearRand_rest assms)
    done
qed

lemma GeneratePointLights_fold:
  assumes "unit_samples g"
      and "fold (GeneratePointLights_body app) idxs (lights, radii, g) = (lights', radii', g')"
  shows "length lights' = length lights \<and> length radii' = length radii \<and> unit_samples g'
       \<and> (\<forall>j < length lights. (j \<in> set idxs \<longrightarrow> generated_ok app (lights' ! j))
                               \<and> (j \<notin> set idxs \<longrightarrow> lights' ! j = lights ! j))"
  using assms
proof (induction idxs arbitrary: lights radii g)
  case Nil
  then show ?case by simp
next
  case (Cons i idxs)
  obtain p e g1 where
    step: "GeneratePointLights_body app i (lights, radii, g) = (lights[i := p], radii[i := e], g1)"
    and ok: "generated_ok app p" and u1: "unit_samples g1"
    using GeneratePointLights_body_shape [OF Cons.prems(1)] by blast
  have rest: "fold (GeneratePointLights_body app) idxs (lights[i := p], radii[i := e], g1)
                = (lights', radii', g')"
    using Cons.prems(2) by (simp add: step)
  note ih = Cons.IH [OF u1 rest]
  have len: "length lights' = length lights" "length radii' = length radii" "unit_samples g'"
    using ih by simp_all
  have elems: "(j \<in> set (i # idxs) \<longrightarrow> generated_ok app (lights' ! j))
             \<and> (j \<notin> set (i # idxs) \<longrightarrow> lights' ! j = lights ! j)"
    if j: "j < length lights" for j
  proof (cases "j \<in> set idxs")
    case True
    then show ?thesis using ih j by simp
  next
    case False
    then have same: "lights' ! j = lights[i := p] ! j" using ih j by simp
    show ?thesis
    proof (cases "j = i")
      case True
      then show ?thesis using same j ok by simp
    next
      case False
      then show ?thesis using same \<open>j \<notin> set idxs\<close> by simp
    qed
  qed
  show ?case using len elems by blast
qed

text \<open>
  Claim C10 (amended). After \<open>GeneratePointLights\<close> returns, the point-light list and the
  ellipse-radii list both have exactly \<open>m_point_lights_count\<close> elements, and every
  generated point light has intensity \<open>m_point_lights_intensity\<close>, a radius between the
  two components of \<open>min_max_point_light_radius\<close> (in \<open>[x, y]\<close> when \<open>x \<le> y\<close>) and
  \<open>position.y\<close> in \<open>[0.5, 12]\<close>. The unit samples of the random generator are in
  \<open>[0, 1]\<close>.
\<close>

theorem GeneratePointLights_postcondition:
  assumes samples: "\<forall>n. 0 \<le> g n \<and> g n \<le> 1"
  shows "length (m_point_lights (fst (GeneratePointLights app g))) = unat (m_point_lights_count app)
       \<and> length (m_ellipses_radii (fst (GeneratePointLights app g))) = unat (m_point_lights_count app)
       \<and> (\<forall>p \<in> set (m_point_lights (fst (GeneratePointLights app g))).
             intensity p = m_point_lights_intensity app
             \<and> min (fst (min_max_point_light_radius app)) (snd (min_max_point_light_radius app))
                 \<le> radius p
             \<and> radius p
                 \<le> max (fst (min_max_point_light_radius app)) (snd (min_max_point_light_radius app))
             \<and> (fst (min_max_point_light_radius app) \<le> snd (min_max_point_light_radius app)
                  \<longrightarrow> fst (min_max_point_light_radius app) \<le> radius p
                      \<and> radius p \<le> snd (min_max_point_light_radius app))
             \<and> 1 / 2 \<le> fst (snd (position p)) \<and> fst (snd (position p)) \<le> 12)"
proof -
  let ?n = "unat (m_point_lights_count app)"
  let ?l0 = "replicate ?n PointLight_zero"
  let ?r0 = "replicate ?n (0 :: real, 0 :: real, 0 :: real, 0 :: real)"
  obtain lights radii g' where
    f: "fold (GeneratePointLights_body app) [0..<?n] (?l0, ?r0, g) = (lights, radii, g')"
    by (cases "fold (GeneratePointLights_body app) [0..<?n] (?l0, ?r0, g)") auto
  have res: "fst (GeneratePointLights app g) = app\<lparr>m_point_lights := lights, m_ellipses_radii := radii\<rparr>"
    using f by (simp add: GeneratePointLights_def Let_def)
  have u: "unit_samples g" using samples by (simp add: unit_samples_def)
  note inv = GeneratePointLights_fold [OF u f]
  have len: "length lights = ?n" "length radii = ?n" using inv by simp_all
  have ok: "generated_ok app p" if mem: "p \<in> set lights" for p
  proof -
    obtain j where "j < length lights" "p = lights ! j"
      using mem by (auto simp: in_set_conv_nth)
    then show ?thesis using inv len by simp
  qed
  have "intensity p = m_point_lights_intensity app
             \<and> min (fst (min_max_point_light_radius app)) (snd (min_max_point_light_radius app))
                 \<le> radius p
             \<and> radius p
                 \<le> max (fst (min_max_point_light_radius app)) (snd (min_max_point_light_radius app))
             \<and> (fst (min_max_point_light_radius app) \<le> snd (min_max_point_light_radius app)
                  \<longrightarrow> fst (min_max_point_light_radius app) \<le> radius p
                      \<and> radius p \<le> snd (min_max_point_light_radius app))
             \<and> 1 / 2 \<le> fst (snd (position p)) \<and> fst (snd (position p)) \<le> 12"
    if "p \<in> set lights" for p
    using ok [OF that] by (auto simp: generated_ok_def)
  then show ?thesis using len by (simp add: res)
qed

lemma GeneratePointLights_example:
  "map (\<lambda>p. (intensity p, radius p, fst (snd (position p))))
       (m_point_lights (fst (GeneratePointLights
          (example_app\<lparr>min_max_point_light_radius := (lo, hi)\<rparr>) (\<lambda>n. 1 / 2))))
     = [(1, (hi - lo) / 2 + lo, 25 / 4), (1, (hi - lo) / 2 + lo, 25 / 4)]"
proof -
  have r2: "replicate 2 x = [x, x]" for x :: 'a by (simp add: numeral_2_eq_2)
  have u2: "[0..<2] = [0, Suc 0]" by (simp add: upt_rec)
  show ?thesis
    by (simp add: GeneratePointLights_def GeneratePointLights_body_def Let_def linearRand_def
        split_def example_app_def PointLight_zero_def r2 u2)
qed

theorem GeneratePointLights_postcondition_witness:
  "(\<forall>n :: nat. (0 :: real) \<le> 1 / 2 \<and> (1 / 2 :: real) \<le> 1)
   \<and> length (m_point_lights (fst (GeneratePointLights example_app (\<lambda>n. 1 / 2)))) = 2
   \<and> length (m_ellipses_radii (fst (GeneratePointLights example_app (\<lambda>n. 1 / 2)))) = 2
   \<and> map (\<lambda>p. (intensity p, radius p, fst (snd (position p))))
         (m_point_lights (fst (GeneratePointLights example_app (\<lambda>n. 1 / 2))))
       = [(1, 155, 25 / 4), (1, 155, 25 / 4)]"
proof -
  have h: "\<forall>n :: nat. (0 :: real) \<le> (\<lambda>n. 1 / 2) n \<and> (\<lambda>n. 1 / 2 :: real) n \<le> 1" by simp
  have e: "example_app\<lparr>min_max_point_light_radius := (10, 300)\<rparr> = example_app"
    by (simp add: example_app_def)
  have m: "map (\<lambda>p. (intensity p, radius p, fst (snd (position p))))
         (m_point_lights (fst (GeneratePointLights example_app (\<lambda>n. 1 / 2))))
       = [(1, 155, 25 / 4), (1, 155, 25 / 4)]"
    using GeneratePointLights_example [of 10 300] unfolding e by simp
  have "unat (m_point_lights_count example_app) = 2" by (simp add: example_app_def)
  then show ?thesis
    using GeneratePointLights_postcondition [OF h, of example_app] m by simp
qed

text \<open>
  The user interface lets the minimum radius exceed the maximum. With
  \<open>min_max_point_light_radius = (300, 10)\<close> every generated radius lies in \<open>[10, 300]\<close>
  (here 155), and none in the empty range \<open>[300, 10]\<close>.
\<close>

theorem GeneratePointLights_radius_counterexample:
  "map radius (m_point_lights (fst (GeneratePointLights
        (example_app\<lparr>min_max_point_light_radius := (300, 10)\<rparr>) (\<lambda>n. 1 / 2))))
     = [155, 155]
   \<and> fst (min_max_point_light_radius (example_app\<lparr>min_max_point_light_radius := (300, 10)\<rparr>)) = 300
   \<and> snd (min_max_point_light_radius (example_app\<lparr>min_max_point_light_radius := (300, 10)\<rparr>)) = 10
   \<and> \<not> ((300 :: real) \<le> 155 \<and> (155 :: real) \<le> 10)"
proof -
  have "map (fst \<circ> snd) (map (\<lambda>p. (intensity p, radius p, fst (snd (position p))))
       (m_point_lights (fst (GeneratePointLights
          (example_app\<lparr>min_max_point_light_radius := (300, 10)\<rparr>) (\<lambda>n. 1 / 2)))))
     = [155, 155]"
    unfolding GeneratePointLights_example by simp
  then show ?thesis by (simp add: comp_def)
qed

subsection \<open>Colour conversion\<close>

lemma fmodf_2_range:
  assumes "0 \<le> x"
  shows "0 \<le> fmodf x 2" "fmodf x 2 < 2"
proof -
  have f: "fmodf x 2 = 2 * (x / 2 - of_int \<lfloor>x / 2\<rfloor>)"
    using assms by (simp add: fmodf_def static_cast_int_def algebra_simps)
  have "0 \<le> x / 2 - of_int \<lfloor>x / 2\<rfloor>" "x / 2 - of_int \<lfloor>x / 2\<rfloor> < 1"
    by linarith+
  then show "0 \<le> fmodf x 2" "fmodf x 2 < 2" unfolding f by simp_all
qed

lemma chroma_X_range:
  assumes "0 \<le> C" "0 \<le> x"
  shows "0 \<le> C * (1 - \<bar>fmodf x 2 - 1\<bar>)" "C * (1 - \<bar>fmodf x 2 - 1\<bar>) \<le> C"
proof -
  have "0 \<le> 1 - \<bar>fmodf x 2 - 1\<bar>" "1 - \<bar>fmodf x 2 - 1\<bar> \<le> 1"
    using fmodf_2_range [OF assms(2)] by simp_all
  then show "0 \<le> C * (1 - \<bar>fmodf x 2 - 1\<bar>)" "C * (1 - \<bar>fmodf x 2 - 1\<bar>) \<le> C"
    using assms(1) by (simp_all add: mult_left_le)
qed

lemma sector_range:
  assumes "0 \<le> H" "H < 360"
  shows "static_cast_int (H / 60) \<in> {0, 1, 2, 3, 4, 5}"
proof -
  define k where "k = \<lfloor>H / 60\<rfloor>"
  have q: "0 \<le> H / 60" "H / 60 < 6" using assms by simp_all
  then have "0 \<le> k" "k < 6" unfolding k_def by (simp_all add: floor_less_iff)
  then have "k \<in> {0, 1, 2, 3, 4, 5}" by auto
  moreover have "static_cast_int (H / 60) = k"
    using q(1) by (simp add: static_cast_int_def k_def)
  ultimately show ?thesis by simp
qed

lemma hsv2rgb_360: "hsv2rgb 360 S V = None"
  by (simp add: hsv2rgb_def Let_def static_cast_int_def)

lemma linearRand_range:
  assumes "0 \<le> g 0" "g 0 \<le> 1" "lo \<le> hi"
  shows "lo \<le> fst (linearRand lo hi g)" "fst (linearRand lo hi g) \<le> hi"
proof -
  have "0 \<le> g 0 * (hi - lo)" using assms by simp
  then show "lo \<le> fst (linearRand lo hi g)" by (simp add: linearRand_def)
  have "g 0 * (hi - lo) \<le> 1 * (hi - lo)" using assms by (intro mult_right_mono) simp_all
  then show "fst (linearRand lo hi g) \<le> hi" by (simp add: linearRand_def)
qed

lemma GeneratePointLights_boundary_hue:
  "map color (m_point_lights (fst (GeneratePointLights (app\<lparr>m_point_lights_count := 1\<rparr>) (\<lambda>n. 1))))
     = [None]"
  by (simp add: GeneratePointLights_def GeneratePointLights_body_def Let_def linearRand_def
      hsv2rgb_360 PointLight_zero_def split_def)

text \<open>
  Claim C9. For every hue \<open>H\<close> in \<open>[0, 360)\<close> and \<open>S\<close>, \<open>V\<close> in \<open>[0, 1]\<close>, \<open>hsv2rgb\<close>
  assigns \<open>RGB\<close> in one of the six cases of the \<open>switch\<close> and returns a vector whose
  three components lie in \<open>[0, 1]\<close>. At \<open>H = 360\<close> no case applies and \<open>RGB\<close> stays
  uninitialised. \<open>GeneratePointLights\<close> draws the hue with \<open>linearRand (1, 360)\<close>, whose
  values range over \<open>[1, 360]\<close> and reach 360 at the last unit sample: the light generated
  then has an uninitialised colour.
\<close>

theorem hsv2rgb_range:
  assumes H: "0 \<le> H" "H < 360" and S: "0 \<le> S" "S \<le> 1" and V: "0 \<le> V" "V \<le> 1"
  shows "(\<exists>r g b. hsv2rgb H S V = Some (r, g, b)
            \<and> 0 \<le> r \<and> r \<le> 1 \<and> 0 \<le> g \<and> g \<le> 1 \<and> 0 \<le> b \<and> b \<le> 1)
       \<and> hsv2rgb 360 S V = None
       \<and> (\<forall>rnd. 0 \<le> rnd 0 \<and> rnd 0 \<le> 1 \<longrightarrow>
              1 \<le> fst (linearRand 1 360 rnd) \<and> fst (linearRand 1 360 rnd) \<le> 360)
       \<and> fst (linearRand 1 360 (\<lambda>n. 1)) = 360
       \<and> map color (m_point_lights (fst (GeneratePointLights
                (app\<lparr>m_point_lights_count := 1\<rparr>) (\<lambda>n. 1)))) = [None]"
proof -
  define C where "C = V * S"
  define m where "m = V - C"
  define X where "X = C * (1 - \<bar>fmodf (H / 60) 2 - 1\<bar>)"
  have C: "0 \<le> C" "C \<le> V"
    using S V by (simp_all add: C_def mult_left_le)
  have X: "0 \<le> X" "X \<le> C"
    unfolding X_def using C(1) H(1) by (simp_all add: chroma_X_range)
  have m: "0 \<le> m" "C + m = V" using C by (simp_all add: m_def)
  have b: "0 \<le> c + m \<and> c + m \<le> 1" if "0 \<le> c" "c \<le> C" for c
    using that m V by linarith
  have bC: "0 \<le> C + m \<and> C + m \<le> 1" and bX: "0 \<le> X + m \<and> X + m \<le> 1"
    and b0: "0 \<le> m \<and> m \<le> 1"
    using b [of C] b [of X] b [of 0] C X by simp_all
  have k: "static_cast_int (H / 60) \<in> {0, 1, 2, 3, 4, 5}" using H by (rule sector_range)
  have unf: "hsv2rgb H S V =
          map_option (\<lambda>RGB. vec3_add_scalar RGB m)
            (if static_cast_int (H / 60) = 0 then Some (C, X, 0)
             else if static_cast_int (H / 60) = 1 then Some (X, C, 0)
             else if static_cast_int (H / 60) = 2 then Some (0, C, X)
             else if static_cast_int (H / 60) = 3 then Some (0, X, C)
             else if static_cast_int (H / 60) = 4 then Some (X, 0, C)
             else if static_cast_int (H / 60) = 5 then Some (C, 0, X)
             else None)"
    by (simp add: hsv2rgb_def Let_def C_def m_def X_def)
  have first: "\<exists>r g b. hsv2rgb H S V = Some (r, g, b)
            \<and> 0 \<le> r \<and> r \<le> 1 \<and> 0 \<le> g \<and> g \<le> 1 \<and> 0 \<le> b \<and> b \<le> 1"
    using k bC bX b0 unfolding unf by (auto simp: vec3_add_scalar_def)
  have third: "1 \<le> fst (linearRand 1 360 rnd) \<and> fst (linearRand 1 360 rnd) \<le> 360"
    if "0 \<le> rnd 0 \<and> rnd 0 \<le> 1" for rnd
    using that linearRand_range [of rnd 1 360] by simp
  have fourth: "fst (linearRand 1 360 (\<lambda>n. 1)) = 360" by (simp add: linearRand_def)
  show ?thesis
    using first hsv2rgb_360 third fourth GeneratePointLights_boundary_hue by blast
qed

theorem hsv2rgb_range_witness:
  "(0 :: real) \<le> 90 \<and> (90 :: real) < 360 \<and> (0 :: real) \<le> 1 / 2 \<and> (1 / 2 :: real) \<le> 1
   \<and> hsv2rgb 90 (1 / 2) (1 / 2) = Some (3 / 8, 1 / 2, 1 / 4)
   \<and> hsv2rgb 360 (1 / 2) (1 / 2) = None
   \<and> fst (linearRand 1 360 (\<lambda>n. 1)) = 360
   \<and> map color (m_point_lights (fst (GeneratePointLights
            (example_app\<lparr>m_point_lights_count := 1\<rparr>) (\<lambda>n. 1)))) = [None]"
proof -
  have h: "(0 :: real) \<le> 90" "(90 :: real) < 360" "(0 :: real) \<le> 1 / 2" "(1 / 2 :: real) \<le> 1"
    by simp_all
  have e: "hsv2rgb 90 (1 / 2) (1 / 2) = Some (3 / 8, 1 / 2, 1 / 4)"
    by (simp add: hsv2rgb_def Let_def static_cast_int_def fmodf_def vec3_add_scalar_def)
  show ?thesis
    using hsv2rgb_range [OF h(1) h(2) h(3) h(4) h(3) h(4), of example_app] h e by simp
qed

subsection \<open>Light Culler\<close>













end
